theory Spec2Isabelle
  imports Complex_Main
begin

section \<open>Quantum autoencoder for fraud detection: model of the notebook\<close>

text \<open>
  The notebook \<^verbatim>\<open>QAE_Fraud_Detection.ipynb\<close> builds a variational circuit with PennyLane
  (\<^verbatim>\<open>qae_layer\<close>, \<^verbatim>\<open>qae_circuit\<close>), a batch cost (\<^verbatim>\<open>cost_fn\<close>), a mini-batch training
  loop and a scoring stage (\<^verbatim>\<open>metrics\<close>).  The functions of the notebook are translated
  below.  The primitives they call from PennyLane, NumPy and scikit-learn are not part of
  the notebook; each of them is modelled from the specification's description of the
  corresponding component and is marked as such.  Floating-point numbers are modelled by
  exact reals and complex numbers.
\<close>

subsection \<open>Errors\<close>

text \<open>The exceptions that the modelled code paths can raise.\<close>

datatype py_error = ValueError | WireError

subsection \<open>State-vector engine\<close>

text \<open>
  Modelled from the spec: the state-vector engine (the simulator behind
  \<^verbatim>\<open>qml.device\<close>) is library code.  The joint state of \<open>n\<close> qubits is an amplitude
  array of size \<open>2 ^ n\<close>, here a function from the array index to the amplitude, read at
  the indices below \<open>2 ^ n\<close>.  A wire is addressed through a bit of the index.
\<close>

type_synonym state = "nat \<Rightarrow> complex"

text \<open>A 2-by-2 matrix, row by row.\<close>

type_synonym matrix2 = "complex \<times> complex \<times> complex \<times> complex"

text \<open>Modelled from the spec: \<^verbatim>\<open>Initialize(n)\<close>, amplitude 1 at index 0, else 0.\<close>

definition Initialize :: state where
  "Initialize = (\<lambda>i. if i = 0 then 1 else 0)"

text \<open>
  Modelled from the spec: \<^verbatim>\<open>ApplySingleQubitGate(state, 2x2 unitary, wire)\<close>.  The
  amplitudes of the two indices that differ only in bit \<open>p\<close> are combined by the matrix.
\<close>

definition ApplySingleQubitGate :: "matrix2 \<Rightarrow> nat \<Rightarrow> state \<Rightarrow> state" where
  "ApplySingleQubitGate U p \<psi> =
     (case U of (u00, u01, u10, u11) \<Rightarrow>
        (\<lambda>i. (if bit i p then u10 else u00) * \<psi> (unset_bit p i)
           + (if bit i p then u11 else u01) * \<psi> (set_bit p i)))"

text \<open>
  Modelled from the spec: \<^verbatim>\<open>ApplyControlledFlip(state, control, target)\<close> exchanges the
  amplitude pairs whose control bit is 1, flipping the target bit.
\<close>

definition ApplyControlledFlip :: "nat \<Rightarrow> nat \<Rightarrow> state \<Rightarrow> state" where
  "ApplyControlledFlip c t \<psi> = (\<lambda>i. \<psi> (if bit i c then flip_bit t i else i))"

text \<open>
  Modelled from the spec: \<^verbatim>\<open>Expectation(state, wire)\<close>, the sum of the squared amplitude
  magnitudes weighted by \<open>+1\<close> where the wire's bit is 0 and by \<open>-1\<close> where it is 1.
\<close>

definition Expectation :: "nat \<Rightarrow> nat \<Rightarrow> state \<Rightarrow> real" where
  "Expectation n p \<psi> = (\<Sum>i<2 ^ n. (cmod (\<psi> i))\<^sup>2 * (if bit i p then - 1 else 1))"

text \<open>The sum of the squared amplitude magnitudes of an \<open>n\<close>-qubit state.\<close>

definition norm_sq :: "nat \<Rightarrow> state \<Rightarrow> real" where
  "norm_sq n \<psi> = (\<Sum>i<2 ^ n. (cmod (\<psi> i))\<^sup>2)"

subsection \<open>Gate library\<close>

text \<open>
  Modelled from the spec: the rotation matrices of \<^verbatim>\<open>qml.RX\<close>, \<^verbatim>\<open>qml.RY\<close> and
  \<^verbatim>\<open>qml.RZ\<close>, built from \<open>cos (\<theta>/2)\<close> and \<open>sin (\<theta>/2)\<close>; \<open>RZ\<close> is the diagonal phase
  matrix.
\<close>

definition RX_matrix :: "real \<Rightarrow> matrix2" where
  "RX_matrix \<theta> = (complex_of_real (cos (\<theta> / 2)), - \<i> * complex_of_real (sin (\<theta> / 2)),
                  - \<i> * complex_of_real (sin (\<theta> / 2)), complex_of_real (cos (\<theta> / 2)))"

definition RY_matrix :: "real \<Rightarrow> matrix2" where
  "RY_matrix \<theta> = (complex_of_real (cos (\<theta> / 2)), - complex_of_real (sin (\<theta> / 2)),
                  complex_of_real (sin (\<theta> / 2)), complex_of_real (cos (\<theta> / 2)))"

definition RZ_matrix :: "real \<Rightarrow> matrix2" where
  "RZ_matrix \<theta> = (complex_of_real (cos (\<theta> / 2)) - \<i> * complex_of_real (sin (\<theta> / 2)), 0,
                  0, complex_of_real (cos (\<theta> / 2)) + \<i> * complex_of_real (sin (\<theta> / 2)))"

text \<open>
  The operations that the notebook queues: \<^verbatim>\<open>qml.RX(angle, wires=w)\<close>,
  \<^verbatim>\<open>qml.RY\<close>, \<^verbatim>\<open>qml.RZ\<close> and \<^verbatim>\<open>qml.CNOT(wires=[c, t])\<close>.
\<close>

datatype gate = RX real nat | RY real nat | RZ real nat | CNOT nat nat

text \<open>
  Modelled from the spec: the amplitude array is flat and bit-indexable.  Wire 0 is taken
  as the most significant bit of the array index, so wire \<open>w\<close> of an \<open>n\<close>-qubit register
  is bit \<open>n - 1 - w\<close>.
\<close>

definition wire_bit :: "nat \<Rightarrow> nat \<Rightarrow> nat" where
  "wire_bit n w = n - 1 - w"

text \<open>
  Modelled from the spec: the wire check of the device is library code.  A wire index
  outside \<open>[0, n)\<close> is a precondition violation, and the two-qubit operation needs a
  control and a target that differ.  Anything else is a wire error.
\<close>

fun wires_ok :: "nat \<Rightarrow> gate \<Rightarrow> bool" where
  "wires_ok n (RX \<theta> w) = (w < n)"
| "wires_ok n (RY \<theta> w) = (w < n)"
| "wires_ok n (RZ \<theta> w) = (w < n)"
| "wires_ok n (CNOT c t) = (c < n \<and> t < n \<and> c \<noteq> t)"

fun apply_gate :: "nat \<Rightarrow> state \<Rightarrow> gate \<Rightarrow> state" where
  "apply_gate n \<psi> (RX \<theta> w) = ApplySingleQubitGate (RX_matrix \<theta>) (wire_bit n w) \<psi>"
| "apply_gate n \<psi> (RY \<theta> w) = ApplySingleQubitGate (RY_matrix \<theta>) (wire_bit n w) \<psi>"
| "apply_gate n \<psi> (RZ \<theta> w) = ApplySingleQubitGate (RZ_matrix \<theta>) (wire_bit n w) \<psi>"
| "apply_gate n \<psi> (CNOT c t) = ApplyControlledFlip (wire_bit n c) (wire_bit n t) \<psi>"

text \<open>
  Modelled from the spec: executing the queued operations is library code.  The tape is
  run first to last from a given state, each operation through the engine above.
\<close>

definition run_tape :: "nat \<Rightarrow> gate list \<Rightarrow> state \<Rightarrow> state" where
  "run_tape n tape \<psi> = foldl (apply_gate n) \<psi> tape"

subsection \<open>The circuit of the notebook\<close>

text \<open>
  The parameter tensor \<^verbatim>\<open>weights\<close> has shape \<open>(L, n_qubits, 3)\<close>; \<open>weights l w a\<close> is the
  entry \<^verbatim>\<open>weights[l][w, a]\<close>.  The circuit reads it inside its shape only.  The notebook
  sets \<^verbatim>\<open>n_qubits = 4\<close> and \<^verbatim>\<open>L = 4\<close>; both are parameters here.
\<close>

type_synonym layer_params = "nat \<Rightarrow> nat \<Rightarrow> real"
type_synonym weights = "nat \<Rightarrow> nat \<Rightarrow> nat \<Rightarrow> real"

text \<open>
  \<^verbatim>\<open>for w in range(n_qubits): qml.RX(theta[w, 0], wires=w); qml.RY(theta[w, 1], wires=w);
  qml.RZ(theta[w, 2], wires=w)\<close>: each call appends its operation to the tape.
\<close>

fun rotation_loop :: "layer_params \<Rightarrow> nat list \<Rightarrow> gate list \<Rightarrow> gate list" where
  "rotation_loop theta [] tape = tape"
| "rotation_loop theta (w # ws) tape =
     rotation_loop theta ws (((tape @ [RX (theta w 0) w]) @ [RY (theta w 1) w]) @ [RZ (theta w 2) w])"

text \<open>\<^verbatim>\<open>for w in range(n_qubits): qml.CNOT(wires=[w, (w + 1) % n_qubits])\<close>\<close>

fun cnot_loop :: "nat \<Rightarrow> nat list \<Rightarrow> gate list \<Rightarrow> gate list" where
  "cnot_loop n [] tape = tape"
| "cnot_loop n (w # ws) tape = cnot_loop n ws (tape @ [CNOT w ((w + 1) mod n)])"

definition qae_layer :: "nat \<Rightarrow> layer_params \<Rightarrow> gate list \<Rightarrow> gate list" where
  "qae_layer n theta tape = cnot_loop n [0..<n] (rotation_loop theta [0..<n] tape)"

text \<open>\<^verbatim>\<open>for l in range(L): qae_layer(weights[l])\<close>\<close>

fun layer_loop :: "nat \<Rightarrow> weights \<Rightarrow> nat list \<Rightarrow> gate list \<Rightarrow> gate list" where
  "layer_loop n weights [] tape = tape"
| "layer_loop n weights (l # ls) tape = layer_loop n weights ls (qae_layer n (weights l) tape)"

text \<open>
  Modelled from the spec: \<^verbatim>\<open>qml.AngleEmbedding(features=x, wires=range(n_qubits),
  rotation="Y")\<close> is library code.  The encoding applies \<open>RY\<close> on qubit \<open>i\<close> with the
  \<open>i\<close>-th sample component as angle; more features than wires is a value error.
\<close>

definition AngleEmbedding :: "real list \<Rightarrow> nat \<Rightarrow> gate list \<Rightarrow> py_error + gate list" where
  "AngleEmbedding x n tape =
     (if n < length x then Inl ValueError
      else Inr (tape @ map (\<lambda>(xi, w). RY xi w) (zip x [0..<n])))"

text \<open>The operations queued by one call of \<^verbatim>\<open>qae_circuit(x, weights)\<close>.\<close>

definition circuit_tape :: "nat \<Rightarrow> nat \<Rightarrow> real list \<Rightarrow> weights \<Rightarrow> py_error + gate list" where
  "circuit_tape n L x weights =
     (case AngleEmbedding x n [] of
        Inl e \<Rightarrow> Inl e
      | Inr tape \<Rightarrow> Inr (layer_loop n weights [0..<L] tape))"

text \<open>
  \<^verbatim>\<open>qae_circuit\<close>: the tape is built, checked against the device, executed from the
  initial state, and the Pauli-Z expectation of wire \<open>n_qubits - 1\<close> is returned.  With
  no qubit there is no wire \<open>n_qubits - 1\<close> to measure.
\<close>

definition qae_circuit :: "nat \<Rightarrow> nat \<Rightarrow> real list \<Rightarrow> weights \<Rightarrow> py_error + real" where
  "qae_circuit n L x weights =
     (case circuit_tape n L x weights of
        Inl e \<Rightarrow> Inl e
      | Inr tape \<Rightarrow>
          if n = 0 \<or> \<not> list_all (wires_ok n) tape then Inl WireError
          else Inr (Expectation n (wire_bit n (n - 1)) (run_tape n tape Initialize)))"

subsection \<open>The cost function\<close>

text \<open>
  \<^verbatim>\<open>for sample in X_batch: expval = qae_circuit(features, weights);
  expvals.append(expval)\<close>
\<close>

fun expvals_loop :: "nat \<Rightarrow> nat \<Rightarrow> weights \<Rightarrow> real list list \<Rightarrow> real list \<Rightarrow> py_error + real list" where
  "expvals_loop n L weights [] expvals = Inr expvals"
| "expvals_loop n L weights (sample # rest) expvals =
     (case qae_circuit n L sample weights of
        Inl e \<Rightarrow> Inl e
      | Inr expval \<Rightarrow> expvals_loop n L weights rest (expvals @ [expval]))"

text \<open>
  Modelled from the spec: \<^verbatim>\<open>pnp.stack\<close> is library code.  Stacking needs at least one
  array, so an empty mini-batch is an input error and not a no-op.
\<close>

definition pnp_stack :: "real list \<Rightarrow> py_error + real list" where
  "pnp_stack arrays = (if arrays = [] then Inl ValueError else Inr arrays)"

text \<open>Modelled from the spec: \<^verbatim>\<open>pnp.mean\<close> is library code; the mean of a non-empty array.\<close>

definition pnp_mean :: "real list \<Rightarrow> real" where
  "pnp_mean a = sum_list a / real (length a)"

definition cost_fn :: "nat \<Rightarrow> nat \<Rightarrow> weights \<Rightarrow> real list list \<Rightarrow> py_error + real" where
  "cost_fn n L weights X_batch =
     (case expvals_loop n L weights X_batch [] of
        Inl e \<Rightarrow> Inl e
      | Inr expvals \<Rightarrow>
          (let fidelities = map (\<lambda>e. (1 + e) / 2) expvals;
               errors = map (\<lambda>f. 1 - f) fidelities
           in case pnp_stack errors of
                Inl e \<Rightarrow> Inl e
              | Inr stacked \<Rightarrow> Inr (pnp_mean stacked)))"

subsection \<open>The training loop\<close>

text \<open>\<^verbatim>\<open>range(start, stop, step)\<close> for a positive step; a zero step is rejected by the caller.\<close>

function py_range :: "nat \<Rightarrow> nat \<Rightarrow> nat \<Rightarrow> nat list" where
  "py_range i stop step =
     (if step = 0 \<or> stop \<le> i then [] else i # py_range (i + step) stop step)"
  by pat_completeness auto
termination
  by (relation "measure (\<lambda>(i, stop, step). stop - i)") auto

declare py_range.simps [simp del]

text \<open>\<^verbatim>\<open>batch_iter = range(0, len(X_train_4d), batch_size)\<close>; a zero step is a value error.\<close>

definition batch_iter :: "nat \<Rightarrow> nat \<Rightarrow> py_error + nat list" where
  "batch_iter len batch_size =
     (if batch_size = 0 then Inl ValueError else Inr (py_range 0 len batch_size))"

text \<open>\<^verbatim>\<open>X_batch = X_train_4d[idx : idx + batch_size]\<close>; a slice is cut off at the end of the data.\<close>

definition X_batch_of :: "'a list \<Rightarrow> nat \<Rightarrow> nat \<Rightarrow> 'a list" where
  "X_batch_of X_train idx batch_size = take batch_size (drop idx X_train)"

text \<open>
  Modelled from the spec: \<^verbatim>\<open>opt.step(lambda w: cost_fn(w, X_batch), weights)\<close> is library
  code.  The objective is evaluated at the current weights, so its error is the step's
  error; the new optimizer state and weights are then computed from the mini-batch and
  the old ones by \<open>update\<close>, which is a parameter of the model.
\<close>

type_synonym 'o updater = "real list list \<Rightarrow> 'o \<times> weights \<Rightarrow> 'o \<times> weights"

definition opt_step ::
  "'o updater \<Rightarrow> nat \<Rightarrow> nat \<Rightarrow> real list list \<Rightarrow> 'o \<times> weights \<Rightarrow> py_error + 'o \<times> weights" where
  "opt_step update n L X_batch st =
     (case cost_fn n L (snd st) X_batch of
        Inl e \<Rightarrow> Inl e
      | Inr loss \<Rightarrow> Inr (update X_batch st))"

text \<open>
  \<^verbatim>\<open>for idx in batch_iter: X_batch = X_train_4d[idx : idx + batch_size];
  weights = opt.step(lambda w: cost_fn(w, X_batch), weights)\<close>
\<close>

fun batch_loop ::
  "'o updater \<Rightarrow> nat \<Rightarrow> nat \<Rightarrow> real list list \<Rightarrow> nat \<Rightarrow> nat list \<Rightarrow> 'o \<times> weights
     \<Rightarrow> py_error + 'o \<times> weights" where
  "batch_loop update n L X_train batch_size [] st = Inr st"
| "batch_loop update n L X_train batch_size (idx # idxs) st =
     (case opt_step update n L (X_batch_of X_train idx batch_size) st of
        Inl e \<Rightarrow> Inl e
      | Inr st' \<Rightarrow> batch_loop update n L X_train batch_size idxs st')"

text \<open>
  \<^verbatim>\<open>for epoch in range(epochs)\<close>: the batch indices are created, every mini-batch is
  processed, and the loss on the leading slice \<^verbatim>\<open>X_train_4d[:batch_size]\<close> is evaluated
  for the report.
\<close>

fun epoch_loop ::
  "'o updater \<Rightarrow> nat \<Rightarrow> nat \<Rightarrow> real list list \<Rightarrow> nat \<Rightarrow> nat list \<Rightarrow> 'o \<times> weights
     \<Rightarrow> py_error + 'o \<times> weights" where
  "epoch_loop update n L X_train batch_size [] st = Inr st"
| "epoch_loop update n L X_train batch_size (epoch # rest) st =
     (case batch_iter (length X_train) batch_size of
        Inl e \<Rightarrow> Inl e
      | Inr idxs \<Rightarrow>
          (case batch_loop update n L X_train batch_size idxs st of
             Inl e \<Rightarrow> Inl e
           | Inr st' \<Rightarrow>
               (case cost_fn n L (snd st') (take batch_size X_train) of
                  Inl e \<Rightarrow> Inl e
                | Inr train_loss \<Rightarrow> epoch_loop update n L X_train batch_size rest st')))"

definition train ::
  "'o updater \<Rightarrow> nat \<Rightarrow> nat \<Rightarrow> real list list \<Rightarrow> nat \<Rightarrow> nat \<Rightarrow> 'o \<times> weights
     \<Rightarrow> py_error + 'o \<times> weights" where
  "train update n L X_train batch_size epochs st =
     epoch_loop update n L X_train batch_size [0..<epochs] st"

subsection \<open>Scoring and evaluation\<close>

text \<open>\<^verbatim>\<open>p0_test = np.array([(qae_circuit(x, weights) + 1) / 2 for x in X_test_4d])\<close>\<close>

fun p0_test :: "nat \<Rightarrow> nat \<Rightarrow> weights \<Rightarrow> real list list \<Rightarrow> py_error + real list" where
  "p0_test n L weights [] = Inr []"
| "p0_test n L weights (x # xs) =
     (case qae_circuit n L x weights of
        Inl e \<Rightarrow> Inl e
      | Inr expval \<Rightarrow>
          (case p0_test n L weights xs of
             Inl e \<Rightarrow> Inl e
           | Inr ps \<Rightarrow> Inr ((expval + 1) / 2 # ps)))"

text \<open>\<^verbatim>\<open>y_pred = (p0_test < T).astype(int)\<close>; a label is \<open>True\<close> for class 1 (fraud).\<close>

definition y_pred_of :: "real \<Rightarrow> real list \<Rightarrow> bool list" where
  "y_pred_of T p0 = map (\<lambda>p. p < T) p0"









subsection \<open>The forward evaluation as the specification describes it\<close>

text \<open>
  The encoding: \<open>RY\<close> on each qubit \<open>i\<close> with the \<open>i\<close>-th sample component as angle.
\<close>

definition encoding_gates :: "real list \<Rightarrow> gate list" where
  "encoding_gates x = map (\<lambda>i. RY (x ! i) i) [0..<length x]"

text \<open>
  A variational layer: \<open>RX\<close>, \<open>RY\<close>, \<open>RZ\<close> in that order on every qubit, then the ring
  of entangling operations from qubit \<open>i\<close> to qubit \<open>(i + 1) mod n\<close>, the wrap-around edge
  included.
\<close>

definition variational_layer :: "nat \<Rightarrow> layer_params \<Rightarrow> gate list" where
  "variational_layer n theta =
     concat (map (\<lambda>i. [RX (theta i 0) i, RY (theta i 1) i, RZ (theta i 2) i]) [0..<n])
     @ map (\<lambda>i. CNOT i ((i + 1) mod n)) [0..<n]"

text \<open>The whole sequence of gates: the encoding, then the \<open>L\<close> layers in order.\<close>

definition Forward_gates :: "nat \<Rightarrow> nat \<Rightarrow> real list \<Rightarrow> weights \<Rightarrow> gate list" where
  "Forward_gates n L x weights =
     encoding_gates x @ concat (map (\<lambda>l. variational_layer n (weights l)) [0..<L])"

text \<open>
  \<^verbatim>\<open>Forward(sample, parameters)\<close>: from the initial state, the gates are applied in order
  and the Pauli-Z expectation of the last (trash) qubit is returned.
\<close>

definition Forward :: "nat \<Rightarrow> nat \<Rightarrow> real list \<Rightarrow> weights \<Rightarrow> real" where
  "Forward n L x weights =
     Expectation n (wire_bit n (n - 1)) (foldl (apply_gate n) Initialize (Forward_gates n L x weights))"

subsection \<open>Auxiliary notions\<close>

text \<open>A 2-by-2 matrix that preserves the squared length of every pair of amplitudes.\<close>

definition isometry2 :: "matrix2 \<Rightarrow> bool" where
  "isometry2 U =
     (case U of (u00, u01, u10, u11) \<Rightarrow>
        (\<forall>x y. (cmod (u00 * x + u01 * y))\<^sup>2 + (cmod (u10 * x + u11 * y))\<^sup>2
           = (cmod x)\<^sup>2 + (cmod y)\<^sup>2))"

text \<open>
  The mini-batches of one epoch, in the order in which the batch loop takes them: the
  slice \<^verbatim>\<open>X_train_4d[idx : idx + batch_size]\<close> for each \<open>idx\<close> of \<^verbatim>\<open>batch_iter\<close>.
\<close>

definition mini_batches :: "'a list \<Rightarrow> nat \<Rightarrow> 'a list list" where
  "mini_batches X_train batch_size =
     map (\<lambda>idx. X_batch_of X_train idx batch_size) (py_range 0 (length X_train) batch_size)"

text \<open>Replacing the entry \<open>(l, q, a)\<close> of the parameter tensor, all other entries fixed.\<close>

definition set_param :: "weights \<Rightarrow> nat \<Rightarrow> nat \<Rightarrow> nat \<Rightarrow> real \<Rightarrow> weights" where
  "set_param weights l q a v = weights(l := (weights l)(q := (weights l q)(a := v)))"

text \<open>
  The rotation about axis \<open>ax\<close> (0 for X, 1 for Y, otherwise Z), and the matrix \<open>G\<close> with
  rotation matrix \<open>cos (\<theta>/2) I + sin (\<theta>/2) G\<close>.
\<close>

definition rot_gate :: "nat \<Rightarrow> real \<Rightarrow> nat \<Rightarrow> gate" where
  "rot_gate ax t q = (if ax = 0 then RX t q else if ax = 1 then RY t q else RZ t q)"

definition rot_generator :: "nat \<Rightarrow> matrix2" where
  "rot_generator ax =
     (if ax = 0 then (0, - \<i>, - \<i>, 0) else if ax = 1 then (0, - 1, 1, 0) else (- \<i>, 0, 0, \<i>))"

text \<open>
  A tape that depends on a real \<open>t\<close> either not at all, or through the angle of exactly
  one rotation gate.
\<close>

definition shift_form :: "(real \<Rightarrow> gate list) \<Rightarrow> bool" where
  "shift_form g =
     ((\<exists>c. \<forall>t. g t = c) \<or> (\<exists>pre post ax q. \<forall>t. g t = pre @ [rot_gate ax t q] @ post))"

section \<open>Properties\<close>

subsection \<open>Bits of array indices\<close>

lemma flip_bit_twice: "flip_bit t (flip_bit t (i::nat)) = i"
  by (rule bit_eqI) (auto simp add: bit_flip_bit_iff)

lemma unset_set_clear: "\<not> bit (i::nat) p \<Longrightarrow> unset_bit p (set_bit p i) = i"
  by (rule bit_eqI) (auto simp add: bit_unset_bit_iff bit_set_bit_iff)

lemma set_unset_set: "bit (i::nat) p \<Longrightarrow> set_bit p (unset_bit p i) = i"
  by (rule bit_eqI) (auto simp add: bit_unset_bit_iff bit_set_bit_iff)

lemma flip_bit_less:
  assumes "p < n" "(i::nat) < 2 ^ n"
  shows "flip_bit p i < 2 ^ n"
proof -
  have "take_bit n (flip_bit p i) = flip_bit p i"
    using assms by (simp add: take_bit_flip_bit_eq take_bit_nat_eq_self)
  then show ?thesis by (simp only: take_bit_nat_eq_self_iff)
qed

lemma set_bit_less:
  assumes "p < n" "(i::nat) < 2 ^ n"
  shows "set_bit p i < 2 ^ n"
proof -
  have "take_bit n (set_bit p i) = set_bit p i"
    using assms by (simp add: take_bit_set_bit_eq take_bit_nat_eq_self)
  then show ?thesis by (simp only: take_bit_nat_eq_self_iff)
qed

lemma bit_nat_less: "(i::nat) < 2 ^ n \<Longrightarrow> bit i m \<Longrightarrow> m < n"
  by (metis bit_take_bit_iff take_bit_nat_eq_self)

lemma unset_bit_less:
  assumes "(i::nat) < 2 ^ n"
  shows "unset_bit p i < 2 ^ n"
proof -
  have "take_bit n (unset_bit p i) = unset_bit p i"
    by (rule bit_eqI)
      (auto simp add: bit_take_bit_iff bit_unset_bit_iff dest: bit_nat_less [OF assms])
  then show ?thesis by (simp only: take_bit_nat_eq_self_iff)
qed

lemma wire_bit_inj: "c < n \<Longrightarrow> t < n \<Longrightarrow> c \<noteq> t \<Longrightarrow> wire_bit n c \<noteq> wire_bit n t"
  by (simp add: wire_bit_def)

lemma wire_bit_less: "w < n \<Longrightarrow> wire_bit n w < n"
  by (simp add: wire_bit_def)

lemma unset_bit_clear: "\<not> bit (i::nat) p \<Longrightarrow> unset_bit p i = i"
  by (rule bit_eqI) (auto simp add: bit_unset_bit_iff)

lemma set_bit_set: "bit (i::nat) p \<Longrightarrow> set_bit p i = i"
  by (rule bit_eqI) (auto simp add: bit_set_bit_iff)

lemma bit_set_bit_same: "bit (set_bit p (i::nat)) p"
  by (simp add: bit_set_bit_iff)

subsection \<open>The entangling operation\<close>

lemma ApplyControlledFlip_twice:
  "c \<noteq> t \<Longrightarrow> ApplyControlledFlip c t (ApplyControlledFlip c t \<psi>) = \<psi>"
  by (auto simp add: ApplyControlledFlip_def fun_eq_iff bit_flip_bit_iff flip_bit_twice)

text \<open>
  C5: the controlled flip is self-inverse.  For every state and every control/target
  pair that the device accepts (both wires on the device, and distinct), applying
  \<^verbatim>\<open>CNOT\<close> twice to the same wire pair gives back the state it started from.
\<close>

theorem CNOT_self_inverse:
  assumes "wires_ok n (CNOT c t)"
  shows "apply_gate n (apply_gate n \<psi> (CNOT c t)) (CNOT c t) = \<psi>"
  using assms by (simp add: ApplyControlledFlip_twice wire_bit_inj)

theorem CNOT_self_inverse_witness:
  "wires_ok 4 (CNOT 3 0) \<and>
   apply_gate 4 (apply_gate 4 Initialize (CNOT 3 0)) (CNOT 3 0) = Initialize"
  using CNOT_self_inverse [of 4 3 0 Initialize] by simp

subsection \<open>Gates preserve the sum of squared magnitudes\<close>

lemma sum_pair_bit:
  fixes g :: "nat \<Rightarrow> real"
  assumes "p < n"
  shows "(\<Sum>i<2 ^ n. g i) = (\<Sum>i\<in>{i. i < 2 ^ n \<and> \<not> bit i p}. g i + g (set_bit p i))"
proof -
  let ?A = "{i::nat. i < 2 ^ n \<and> \<not> bit i p}"
  let ?B = "{i::nat. i < 2 ^ n \<and> bit i p}"
  have un: "{..<2 ^ n} = ?A \<union> ?B" by auto
  have dj: "?A \<inter> ?B = {}" by auto
  have fin: "finite ?A" "finite ?B" by simp_all
  have "sum g ?A + sum g ?B = sum g {..<2 ^ n}"
    unfolding un by (rule sum.union_disjoint [symmetric]) (use fin dj in auto)
  moreover have "sum g ?B = (\<Sum>i\<in>?A. g (set_bit p i))"
    by (rule sum.reindex_bij_witness [where i = "set_bit p" and j = "unset_bit p"])
      (auto simp add: set_unset_set unset_set_clear unset_bit_less set_bit_less assms
        bit_unset_bit_iff bit_set_bit_iff)
  ultimately show ?thesis by (simp add: sum.distrib)
qed

lemma norm_sq_single:
  assumes "isometry2 U" "p < n"
  shows "norm_sq n (ApplySingleQubitGate U p \<psi>) = norm_sq n \<psi>"
proof -
  obtain a b c d where U: "U = (a, b, c, d)" by (cases U) auto
  have iso: "\<And>x y. (cmod (a * x + b * y))\<^sup>2 + (cmod (c * x + d * y))\<^sup>2 = (cmod x)\<^sup>2 + (cmod y)\<^sup>2"
    using assms(1) by (simp add: isometry2_def U)
  let ?A = "{i::nat. i < 2 ^ n \<and> \<not> bit i p}"
  let ?\<phi> = "ApplySingleQubitGate U p \<psi>"
  have "norm_sq n ?\<phi> = (\<Sum>i\<in>?A. (cmod (?\<phi> i))\<^sup>2 + (cmod (?\<phi> (set_bit p i)))\<^sup>2)"
    unfolding norm_sq_def by (rule sum_pair_bit [OF assms(2)])
  also have "\<dots> = (\<Sum>i\<in>?A. (cmod (\<psi> i))\<^sup>2 + (cmod (\<psi> (set_bit p i)))\<^sup>2)"
  proof (rule sum.cong [OF refl])
    fix i assume "i \<in> ?A"
    then have nb: "\<not> bit i p" by simp
    have 1: "?\<phi> i = a * \<psi> i + b * \<psi> (set_bit p i)"
      using nb by (simp add: ApplySingleQubitGate_def U unset_bit_clear)
    have 2: "?\<phi> (set_bit p i) = c * \<psi> i + d * \<psi> (set_bit p i)"
      using nb by (simp add: ApplySingleQubitGate_def U unset_set_clear bit_set_bit_same set_bit_set)
    show "(cmod (?\<phi> i))\<^sup>2 + (cmod (?\<phi> (set_bit p i)))\<^sup>2 = (cmod (\<psi> i))\<^sup>2 + (cmod (\<psi> (set_bit p i)))\<^sup>2"
      unfolding 1 2 by (rule iso)
  qed
  also have "\<dots> = norm_sq n \<psi>"
    unfolding norm_sq_def by (rule sum_pair_bit [OF assms(2), symmetric])
  finally show ?thesis .
qed

lemma norm_sq_flip:
  assumes "c < n" "t < n" "c \<noteq> t"
  shows "norm_sq n (ApplyControlledFlip c t \<psi>) = norm_sq n \<psi>"
  unfolding norm_sq_def ApplyControlledFlip_def
  by (rule sum.reindex_bij_witness [where i = "\<lambda>i. if bit i c then flip_bit t i else i"
        and j = "\<lambda>i. if bit i c then flip_bit t i else i"])
    (use assms in \<open>auto simp add: flip_bit_twice flip_bit_less bit_flip_bit_iff\<close>)

lemma isometry2_RY: "isometry2 (RY_matrix \<theta>)"
proof -
  define c s where cs: "c = cos (\<theta> / 2)" "s = sin (\<theta> / 2)"
  have "(cmod (complex_of_real c * x + - complex_of_real s * y))\<^sup>2
        + (cmod (complex_of_real s * x + complex_of_real c * y))\<^sup>2
      = (c\<^sup>2 + s\<^sup>2) * ((cmod x)\<^sup>2 + (cmod y)\<^sup>2)" for x y
    unfolding cmod_power2 by (simp add: power2_eq_square algebra_simps)
  then show ?thesis
    unfolding isometry2_def RY_matrix_def cs by simp
qed

lemma isometry2_RX: "isometry2 (RX_matrix \<theta>)"
proof -
  define c s where cs: "c = cos (\<theta> / 2)" "s = sin (\<theta> / 2)"
  have "(cmod (complex_of_real c * x + - \<i> * complex_of_real s * y))\<^sup>2
        + (cmod (- \<i> * complex_of_real s * x + complex_of_real c * y))\<^sup>2
      = (c\<^sup>2 + s\<^sup>2) * ((cmod x)\<^sup>2 + (cmod y)\<^sup>2)" for x y
    unfolding cmod_power2 by (simp add: power2_eq_square algebra_simps)
  then show ?thesis
    unfolding isometry2_def RX_matrix_def cs by simp
qed

lemma isometry2_RZ: "isometry2 (RZ_matrix \<theta>)"
proof -
  define c s where cs: "c = cos (\<theta> / 2)" "s = sin (\<theta> / 2)"
  have "(cmod ((complex_of_real c - \<i> * complex_of_real s) * x + 0 * y))\<^sup>2
        + (cmod (0 * x + (complex_of_real c + \<i> * complex_of_real s) * y))\<^sup>2
      = (c\<^sup>2 + s\<^sup>2) * ((cmod x)\<^sup>2 + (cmod y)\<^sup>2)" for x y
    unfolding cmod_power2 by (simp add: power2_eq_square algebra_simps)
  then show ?thesis
    unfolding isometry2_def RZ_matrix_def cs by simp
qed

subsection \<open>The tape of the circuit\<close>

lemma rotation_loop_eq:
  "rotation_loop theta ws tape =
     tape @ concat (map (\<lambda>i. [RX (theta i 0) i, RY (theta i 1) i, RZ (theta i 2) i]) ws)"
  by (induction ws arbitrary: tape) simp_all

lemma cnot_loop_eq: "cnot_loop n ws tape = tape @ map (\<lambda>i. CNOT i ((i + 1) mod n)) ws"
  by (induction ws arbitrary: tape) simp_all

lemma qae_layer_eq: "qae_layer n theta tape = tape @ variational_layer n theta"
  by (simp add: qae_layer_def variational_layer_def rotation_loop_eq cnot_loop_eq)

lemma layer_loop_eq:
  "layer_loop n weights ls tape = tape @ concat (map (\<lambda>l. variational_layer n (weights l)) ls)"
  by (induction ls arbitrary: tape) (simp_all add: qae_layer_eq)

lemma zip_upt_eq:
  assumes "length x \<le> n"
  shows "map (\<lambda>(xi, w). RY xi w) (zip x [0..<n]) = encoding_gates x"
  unfolding encoding_gates_def
  by (rule nth_equalityI) (use assms in auto)

lemma circuit_tape_eq:
  "length x \<le> n \<Longrightarrow> circuit_tape n L x weights = Inr (Forward_gates n L x weights)"
  by (simp add: circuit_tape_def AngleEmbedding_def zip_upt_eq layer_loop_eq Forward_gates_def)

lemma circuit_tape_too_long:
  "n < length x \<Longrightarrow> circuit_tape n L x weights = Inl ValueError"
  by (simp add: circuit_tape_def AngleEmbedding_def)

lemma wires_ok_encoding: "length x \<le> n \<Longrightarrow> g \<in> set (encoding_gates x) \<Longrightarrow> wires_ok n g"
  by (auto simp add: encoding_gates_def)

lemma wires_ok_layer: "2 \<le> n \<Longrightarrow> g \<in> set (variational_layer n theta) \<Longrightarrow> wires_ok n g"
  by (auto simp add: variational_layer_def mod_Suc)

lemma wires_ok_Forward_gates:
  "2 \<le> n \<Longrightarrow> length x \<le> n \<Longrightarrow> list_all (wires_ok n) (Forward_gates n L x weights)"
  by (auto simp add: Forward_gates_def list_all_iff wires_ok_encoding wires_ok_layer)

lemma qae_circuit_eq:
  assumes "2 \<le> n" "length x \<le> n"
  shows "qae_circuit n L x weights = Inr (Forward n L x weights)"
  using assms
  by (simp add: qae_circuit_def circuit_tape_eq wires_ok_Forward_gates Forward_def run_tape_def)


subsection \<open>Normalisation along a tape\<close>

lemma norm_sq_Initialize: "norm_sq n Initialize = 1"
proof -
  have "norm_sq n Initialize = (\<Sum>i\<in>{..<2 ^ n}. if i = (0::nat) then 1 else (0::real))"
    unfolding norm_sq_def Initialize_def by (rule sum.cong) auto
  also have "\<dots> = 1" by (simp add: sum.delta')
  finally show ?thesis .
qed

lemma norm_sq_apply_gate: "wires_ok n g \<Longrightarrow> norm_sq n (apply_gate n \<psi> g) = norm_sq n \<psi>"
  by (cases g)
    (simp_all add: norm_sq_single norm_sq_flip isometry2_RX isometry2_RY isometry2_RZ
      wire_bit_less wire_bit_inj)

lemma norm_sq_run_tape:
  "list_all (wires_ok n) tape \<Longrightarrow> norm_sq n (run_tape n tape \<psi>) = norm_sq n \<psi>"
  unfolding run_tape_def
  by (induction tape arbitrary: \<psi>) (simp_all add: norm_sq_apply_gate)

lemma list_all_take: "list_all P xs \<Longrightarrow> list_all P (take k xs)"
  by (auto simp add: list_all_iff dest: in_set_takeD)

lemma Expectation_bounds: "\<bar>Expectation n p \<psi>\<bar> \<le> norm_sq n \<psi>"
proof -
  have "\<bar>Expectation n p \<psi>\<bar> \<le> (\<Sum>i<2 ^ n. \<bar>(cmod (\<psi> i))\<^sup>2 * (if bit i p then - 1 else 1)\<bar>)"
    unfolding Expectation_def by (rule sum_abs)
  also have "\<dots> = norm_sq n \<psi>"
    unfolding norm_sq_def by (rule sum.cong) (auto simp add: abs_mult)
  finally show ?thesis .
qed

lemma Forward_bounds:
  assumes "2 \<le> n" "length x \<le> n"
  shows "- 1 \<le> Forward n L x weights" "Forward n L x weights \<le> 1"
proof -
  have "norm_sq n (run_tape n (Forward_gates n L x weights) Initialize) = 1"
    by (simp add: norm_sq_run_tape wires_ok_Forward_gates assms norm_sq_Initialize)
  then have "\<bar>Forward n L x weights\<bar> \<le> 1"
    using Expectation_bounds [of n "wire_bit n (n - 1)" "run_tape n (Forward_gates n L x weights) Initialize"]
    by (simp add: Forward_def run_tape_def)
  then show "- 1 \<le> Forward n L x weights" "Forward n L x weights \<le> 1" by simp_all
qed

text \<open>
  C3: the forward evaluation.  For a register of at least two qubits and a sample of
  length \<open>n\<close>, \<^verbatim>\<open>qae_circuit\<close> returns, without error, the value of \<open>Forward\<close>: the
  state starts with amplitude 1 at index 0, \<open>RY\<close> with the \<open>i\<close>-th sample component is
  applied on qubit \<open>i\<close>, then the \<open>L\<close> layers in order, each with \<open>RX\<close>, \<open>RY\<close>, \<open>RZ\<close> on
  every qubit (angles from the layer's slice of the parameters) followed by the ring of
  \<open>CNOT\<close> gates from qubit \<open>i\<close> to qubit \<open>(i + 1) mod n\<close>, and the Pauli-Z expectation of
  the last qubit is returned.  The result is a function of the sample and the
  parameters alone.
\<close>

theorem qae_circuit_is_Forward:
  assumes "2 \<le> n" and "length x = n"
  shows "qae_circuit n L x weights = Inr (Forward n L x weights)"
  using assms by (simp add: qae_circuit_eq)

theorem qae_circuit_is_Forward_witness:
  "(2::nat) \<le> 4 \<and> length [1, 2, 3, 4 :: real] = 4 \<and>
   qae_circuit 4 4 [1, 2, 3, 4] (\<lambda>l w a. 0) = Inr (Forward 4 4 [1, 2, 3, 4] (\<lambda>l w a. 0))"
  using qae_circuit_is_Forward [of 4 "[1, 2, 3, 4]" 4 "\<lambda>l w a. 0"] by simp

text \<open>
  C2: normalisation.  For every sample and parameter tensor that the circuit accepts,
  after every prefix of the gate applications of the circuit, starting from the
  initial state, the sum of the squared amplitude magnitudes is exactly 1.
\<close>

theorem norm_preserved_after_every_prefix:
  assumes "2 \<le> n" and "length x \<le> n"
  shows "\<exists>tape. circuit_tape n L x weights = Inr tape \<and>
           (\<forall>k. norm_sq n (run_tape n (take k tape) Initialize) = 1)"
  using assms
  by (simp add: circuit_tape_eq norm_sq_run_tape list_all_take wires_ok_Forward_gates
      norm_sq_Initialize)

theorem norm_preserved_after_every_prefix_witness:
  "(2::nat) \<le> 4 \<and> length [1, 2, 3, 4 :: real] \<le> 4 \<and>
   (\<exists>tape. circuit_tape 4 4 [1, 2, 3, 4] (\<lambda>l w a. 1) = Inr tape \<and>
      (\<forall>k. norm_sq 4 (run_tape 4 (take k tape) Initialize) = 1))"
  using norm_preserved_after_every_prefix [of 4 "[1, 2, 3, 4]" 4 "\<lambda>l w a. 1"] by simp

subsection \<open>Scoring\<close>

lemma p0_test_eq:
  assumes "2 \<le> n" "\<forall>x\<in>set X. length x \<le> n"
  shows "p0_test n L weights X = Inr (map (\<lambda>x. (Forward n L x weights + 1) / 2) X)"
  using assms(2) by (induction X) (simp_all add: qae_circuit_eq assms(1))

text \<open>
  C9: scoring.  For every evaluation sample the circuit returns a measurement \<open>m\<close> in
  \<open>[-1, 1]\<close>, the fidelity score is \<open>(1 + m) / 2\<close> and lies in \<open>[0, 1]\<close>, and for
  every threshold \<open>T\<close> the sample is flagged exactly when its fidelity is strictly
  below \<open>T\<close>; with the threshold equal to the fidelity it is not flagged.
\<close>

theorem fidelity_in_unit_interval_and_threshold:
  assumes "2 \<le> n" and "\<forall>x\<in>set X. length x \<le> n"
  shows "\<exists>p0. p0_test n L weights X = Inr p0 \<and> length p0 = length X \<and>
           (\<forall>j<length X. \<exists>m. qae_circuit n L (X ! j) weights = Inr m \<and> - 1 \<le> m \<and> m \<le> 1 \<and>
                p0 ! j = (1 + m) / 2 \<and> 0 \<le> p0 ! j \<and> p0 ! j \<le> 1 \<and>
                (\<forall>T. y_pred_of T p0 ! j = (p0 ! j < T)) \<and> \<not> y_pred_of (p0 ! j) p0 ! j)"
proof -
  let ?p0 = "map (\<lambda>x. (Forward n L x weights + 1) / 2) X"
  have "\<exists>m. qae_circuit n L (X ! j) weights = Inr m \<and> - 1 \<le> m \<and> m \<le> 1 \<and>
          ?p0 ! j = (1 + m) / 2 \<and> 0 \<le> ?p0 ! j \<and> ?p0 ! j \<le> 1 \<and>
          (\<forall>T. y_pred_of T ?p0 ! j = (?p0 ! j < T)) \<and> \<not> y_pred_of (?p0 ! j) ?p0 ! j"
    if j: "j < length X" for j
  proof -
    have len: "length (X ! j) \<le> n" using assms(2) j by simp
    have b: "- 1 \<le> Forward n L (X ! j) weights" "Forward n L (X ! j) weights \<le> 1"
      using Forward_bounds [OF assms(1) len] by simp_all
    show ?thesis
      using b j by (simp add: qae_circuit_eq [OF assms(1) len] y_pred_of_def)
  qed
  then show ?thesis
    using p0_test_eq [OF assms] by simp
qed

theorem fidelity_in_unit_interval_and_threshold_witness:
  "(2::nat) \<le> 4 \<and> length [1, 2, 3, 4 :: real] \<le> 4 \<and>
   (\<exists>p0. p0_test 4 4 (\<lambda>l w a. 0) [[1, 2, 3, 4]] = Inr p0 \<and> length p0 = length [[1, 2, 3, 4 :: real]] \<and>
           (\<forall>j<length [[1, 2, 3, 4 :: real]]. \<exists>m. qae_circuit 4 4 ([[1, 2, 3, 4]] ! j) (\<lambda>l w a. 0) = Inr m \<and> - 1 \<le> m \<and> m \<le> 1 \<and>
                p0 ! j = (1 + m) / 2 \<and> 0 \<le> p0 ! j \<and> p0 ! j \<le> 1 \<and>
                (\<forall>T. y_pred_of T p0 ! j = (p0 ! j < T)) \<and> \<not> y_pred_of (p0 ! j) p0 ! j))"
proof -
  have g: "(2::nat) \<le> 4" by simp
  have h: "\<forall>x\<in>set [[1, 2, 3, 4 :: real]]. length x \<le> 4" by simp
  show ?thesis
    using fidelity_in_unit_interval_and_threshold [of 4 "[[1, 2, 3, 4]]" 4 "\<lambda>l w a. 0", OF g h] g
    by simp
qed

subsection \<open>Empty input\<close>

lemma expvals_loop_eq:
  assumes "2 \<le> n" "\<forall>x\<in>set B. length x \<le> n"
  shows "expvals_loop n L weights B acc = Inr (acc @ map (\<lambda>x. Forward n L x weights) B)"
  using assms(2) by (induction B arbitrary: acc) (simp_all add: qae_circuit_eq assms(1))

lemma cost_fn_empty: "cost_fn n L weights [] = Inl ValueError"
  by (simp add: cost_fn_def pnp_stack_def)

lemma cost_fn_ok:
  assumes "2 \<le> n" "\<forall>x\<in>set B. length x \<le> n" "B \<noteq> []"
  shows "\<exists>c. cost_fn n L weights B = Inr c"
  using assms(3) by (simp add: cost_fn_def expvals_loop_eq [OF assms(1,2)] pnp_stack_def)

lemma py_range_empty: "py_range i 0 step = []"
  by (simp add: py_range.simps)

text \<open>
  C7: empty input.  An empty mini-batch makes the cost function, and so the optimizer
  step, fail with a value error.  With an empty training set the training run (of at
  least one epoch) fails with a value error: it does not complete with the parameters
  unchanged.
\<close>

theorem empty_input_is_an_error:
  assumes "0 < epochs"
  shows "cost_fn n L weights [] = Inl ValueError \<and>
         opt_step update n L [] st = Inl ValueError \<and>
         train update n L [] batch_size epochs st = Inl ValueError"
proof -
  obtain k where k: "[0..<epochs] = 0 # k"
    using assms by (auto simp add: upt_conv_Cons)
  have "train update n L [] batch_size epochs st = Inl ValueError"
    by (simp add: train_def k batch_iter_def py_range_empty cost_fn_empty)
  then show ?thesis
    by (simp add: cost_fn_empty opt_step_def)
qed

theorem empty_input_is_an_error_witness:
  "(0::nat) < 50 \<and>
   cost_fn 4 4 (\<lambda>l w a. 0) [] = Inl ValueError \<and>
   opt_step (\<lambda>b s. s) 4 4 [] ((), \<lambda>l w a. 0) = Inl ValueError \<and>
   train (\<lambda>b s. s) 4 4 [] 16 50 ((), \<lambda>l w a. 0) = Inl ValueError"
  using empty_input_is_an_error [of 50 4 4 "\<lambda>l w a. 0" "\<lambda>b s. s" "((), \<lambda>l w a. 0)" 16] by simp

subsection \<open>Mini-batches\<close>

lemma py_range_closed:
  "0 < bs \<Longrightarrow> py_range i stop bs = map (\<lambda>j. i + j * bs) [0..<(stop + bs - 1 - i) div bs]"
proof (induction i stop bs rule: py_range.induct)
  case (1 i stop step)
  show ?case
  proof (cases "stop \<le> i")
    case True
    then have "(stop + step - 1 - i) div step = 0"
      using "1.prems" by simp
    then show ?thesis
      using True by (simp add: py_range.simps [of i stop step])
  next
    case False
    then have lt: "i < stop" by simp
    have eq: "stop + step - 1 - i = (stop + step - 1 - (i + step)) + step"
      using lt by simp
    have cnt: "(stop + step - 1 - i) div step = Suc ((stop + step - 1 - (i + step)) div step)"
      using "1.prems" by (subst eq) simp
    have "py_range i stop step = i # py_range (i + step) stop step"
      using lt "1.prems" by (simp add: py_range.simps [of i stop step])
    also have "\<dots> = i # map (\<lambda>j. i + step + j * step) [0..<(stop + step - 1 - (i + step)) div step]"
      using "1.IH" "1.prems" lt by simp
    also have "\<dots> = map (\<lambda>j. i + j * step) [0..<(stop + step - 1 - i) div step]"
      unfolding cnt by (simp add: upt_conv_Cons map_Suc_upt [symmetric] del: upt_Suc)
    finally show ?thesis .
  qed
qed

lemma py_range_less: "idx \<in> set (py_range i stop bs) \<Longrightarrow> idx < stop"
proof (induction i stop bs rule: py_range.induct)
  case (1 i stop step)
  then show ?case
    by (subst (asm) py_range.simps) (auto split: if_splits)
qed

lemma concat_slices:
  "0 < bs \<Longrightarrow> concat (map (\<lambda>idx. X_batch_of X idx bs) (py_range i (length X) bs)) = drop i X"
proof (induction i "length X" bs rule: py_range.induct)
  case (1 i step)
  show ?case
  proof (cases "length X \<le> i")
    case True
    then show ?thesis by (simp add: py_range.simps [of i "length X" step])
  next
    case False
    then have "concat (map (\<lambda>idx. X_batch_of X idx step) (py_range i (length X) step))
        = take step (drop i X) @ drop (i + step) X"
      using 1 by (simp add: py_range.simps [of i "length X" step] X_batch_of_def)
    also have "\<dots> = drop i X"
      by (metis add.commute append_take_drop_id drop_drop)
    finally show ?thesis .
  qed
qed

lemma concat_mini_batches: "0 < bs \<Longrightarrow> concat (mini_batches X bs) = X"
  using concat_slices [of bs X 0] by (simp add: mini_batches_def)

lemma mini_batches_closed:
  "0 < bs \<Longrightarrow> mini_batches X bs
     = map (\<lambda>j. take bs (drop (j * bs) X)) [0..<(length X + bs - 1) div bs]"
  by (simp add: mini_batches_def py_range_closed X_batch_of_def comp_def)

lemma batch_start_less:
  assumes "0 < bs" "j < (N + bs - 1) div bs"
  shows "j * bs < (N::nat)"
proof -
  have "Suc j * bs \<le> ((N + bs - 1) div bs) * bs"
    using assms(2) by (intro mult_le_mono1) simp
  also have "\<dots> \<le> N + bs - 1" by simp
  finally show ?thesis using assms(1) by simp
qed

lemma mini_batches_nonempty: "0 < bs \<Longrightarrow> b \<in> set (mini_batches X bs) \<Longrightarrow> b \<noteq> [] \<and> length b \<le> bs \<and> set b \<subseteq> set X"
  by (auto simp add: mini_batches_def X_batch_of_def dest: py_range_less in_set_takeD in_set_dropD)


lemma opt_step_ok:
  assumes "2 \<le> n" "\<forall>x\<in>set B. length x \<le> n" "B \<noteq> []"
  shows "opt_step update n L B st = Inr (update B st)"
  using cost_fn_ok [OF assms, of L "snd st"] by (auto simp add: opt_step_def)

lemma batch_loop_eq:
  assumes "2 \<le> n" "\<forall>x\<in>set X. length x \<le> n" "0 < bs" "\<forall>idx\<in>set idxs. idx < length X"
  shows "batch_loop update n L X bs idxs st
           = Inr (foldl (\<lambda>s b. update b s) st (map (\<lambda>idx. X_batch_of X idx bs) idxs))"
  using assms(4)
proof (induction idxs arbitrary: st)
  case Nil
  then show ?case by simp
next
  case (Cons idx idxs)
  have ne: "X_batch_of X idx bs \<noteq> []"
    using Cons.prems assms(3) by (simp add: X_batch_of_def)
  have ok: "\<forall>x\<in>set (X_batch_of X idx bs). length x \<le> n"
    using assms(2) by (auto simp add: X_batch_of_def dest: in_set_takeD in_set_dropD)
  show ?case
    using Cons by (simp add: opt_step_ok [OF assms(1) ok ne])
qed

lemma epoch_loop_eq:
  assumes "2 \<le> n" "\<forall>x\<in>set X. length x \<le> n" "0 < bs" "X \<noteq> []"
  shows "epoch_loop update n L X bs es st
           = Inr (foldl (\<lambda>s b. update b s) st (concat (replicate (length es) (mini_batches X bs))))"
proof (induction es arbitrary: st)
  case Nil
  then show ?case by simp
next
  case (Cons e es)
  have bl: "batch_loop update n L X bs (py_range 0 (length X) bs) st
              = Inr (foldl (\<lambda>s b. update b s) st (mini_batches X bs))" for st
    unfolding mini_batches_def
    by (rule batch_loop_eq [OF assms(1,2,3)]) (auto dest: py_range_less)
  have lead: "\<exists>c. cost_fn n L w (take bs X) = Inr c" for w
    by (rule cost_fn_ok [OF assms(1)]) (use assms in \<open>auto dest: in_set_takeD\<close>)
  show ?case
    using lead [of "snd (foldl (\<lambda>s b. update b s) st (mini_batches X bs))"]
    by (auto simp add: batch_iter_def assms(3) bl Cons.IH)
qed

lemma train_eq:
  assumes "2 \<le> n" "\<forall>x\<in>set X. length x \<le> n" "0 < bs" "X \<noteq> []"
  shows "train update n L X bs epochs st
           = Inr (foldl (\<lambda>s b. update b s) st (concat (replicate epochs (mini_batches X bs))))"
  by (simp add: train_def epoch_loop_eq [OF assms])

lemma batch_index_iff:
  assumes "0 < bs"
  shows "(j < (N + bs - 1) div bs) = (j * bs < (N::nat))"
proof
  assume "j < (N + bs - 1) div bs"
  then show "j * bs < N" by (rule batch_start_less [OF assms])
next
  assume "j * bs < N"
  then have "Suc j * bs \<le> N + bs - 1" using assms by simp
  then have "Suc j * bs div bs \<le> (N + bs - 1) div bs" by (rule div_le_mono)
  then show "j < (N + bs - 1) div bs" using assms by simp
qed

lemma unique_batch:
  assumes "0 < bs" "i < (N::nat)"
  shows "\<exists>!j. j * bs < N \<and> j * bs \<le> i \<and> i < j * bs + min bs (N - j * bs)"
proof (rule ex1I [of _ "i div bs"])
  define q where "q = i div bs * bs"
  have "q \<le> i" by (simp add: q_def)
  moreover have "i < q + bs"
    unfolding q_def
    using assms(1) by (metis add.commute div_mult_mod_eq mod_less_divisor nat_add_left_cancel_less)
  ultimately have "q < N \<and> q \<le> i \<and> i < q + min bs (N - q)"
    using assms(2) by (simp add: min_def)
  then show "i div bs * bs < N \<and> i div bs * bs \<le> i \<and> i < i div bs * bs + min bs (N - i div bs * bs)"
    by (simp only: q_def)
next
  fix j assume j: "j * bs < N \<and> j * bs \<le> i \<and> i < j * bs + min bs (N - j * bs)"
  then have "j * bs \<le> i" "i < j * bs + bs" by (simp_all add: min_def split: if_splits)
  then have "j \<le> i div bs" "i div bs < Suc j"
    using assms(1) by (simp_all add: less_eq_div_iff_mult_less_eq div_less_iff_less_mult)
  then show "j = i div bs" by simp
qed

lemma last_batch_length:
  assumes "0 < bs" "\<not> bs dvd length X"
  shows "length (last (mini_batches X bs)) = length X mod bs"
proof -
  let ?N = "length X"
  have pos: "0 < ?N mod bs" using assms by (simp add: mod_greater_zero_iff_not_dvd)
  have "?N + bs - 1 = ?N div bs * bs + (?N mod bs - 1 + bs)"
    using pos by (simp add: div_mult_mod_eq)
  then have "(?N + bs - 1) div bs = ?N div bs + (?N mod bs - 1 + bs) div bs"
    using assms(1) by (simp add: div_mult_self3)
  also have "(?N mod bs - 1 + bs) div bs = 1"
  proof -
    have "?N mod bs - 1 < bs" using assms(1) by (simp add: less_imp_diff_less)
    then have "(?N mod bs - 1) div bs = 0" by simp
    then show ?thesis using assms(1) by (simp only: div_add_self2)
  qed
  finally have nb: "(?N + bs - 1) div bs = Suc (?N div bs)" by simp
  have "mini_batches X bs = map (\<lambda>j. take bs (drop (j * bs) X)) [0..<Suc (?N div bs)]"
    using assms(1) by (simp only: mini_batches_closed nb)
  then have "last (mini_batches X bs) = take bs (drop (?N div bs * bs) X)"
    by simp
  moreover have "?N - ?N div bs * bs = ?N mod bs"
    by (simp add: minus_div_mult_eq_mod)
  ultimately show ?thesis using assms(1) by (simp add: min_def)
qed

text \<open>
  C6, as amended: mini-batches in dataset order.  A training run on a non-empty
  training set applies the optimizer update to the mini-batches of \<open>mini_batches\<close>, in
  that order, and to the same sequence in every epoch.  There are
  \<open>(N + batch_size - 1) div batch_size\<close> of them for \<open>N\<close> samples; batch \<open>j\<close> is the
  contiguous slice of the samples with indices from \<open>j * batch_size\<close> up to, but not
  including, \<open>min ((j + 1) * batch_size) N\<close>, in dataset order; every batch with
  \<open>j < N div batch_size\<close> has exactly \<open>batch_size\<close> samples.
\<close>

theorem mini_batches_are_clipped_contiguous_slices:
  assumes "2 \<le> n" and "\<forall>x\<in>set X. length x \<le> n" and "0 < bs" and "X \<noteq> []"
  shows "train update n L X bs epochs st
           = Inr (foldl (\<lambda>s b. update b s) st (concat (replicate epochs (mini_batches X bs)))) \<and>
         length (mini_batches X bs) = (length X + bs - 1) div bs \<and>
         (\<forall>j<length (mini_batches X bs).
            mini_batches X bs ! j = take bs (drop (j * bs) X) \<and>
            length (mini_batches X bs ! j) = min bs (length X - j * bs) \<and>
            (\<forall>i<length (mini_batches X bs ! j). mini_batches X bs ! j ! i = X ! (j * bs + i)) \<and>
            (j < length X div bs \<longrightarrow> length (mini_batches X bs ! j) = bs))"
proof -
  have full: "length X - j * bs \<ge> bs" if "j < length X div bs" for j
  proof -
    have "Suc j * bs \<le> (length X div bs) * bs"
      using that by (intro mult_le_mono1) simp
    also have "\<dots> \<le> length X" by simp
    finally show ?thesis by simp
  qed
  show ?thesis
    using assms(3)
    by (auto simp add: train_eq [OF assms] mini_batches_closed min_def dest: full)
qed

theorem mini_batches_are_clipped_contiguous_slices_witness:
  "(2::nat) \<le> 4 \<and> list_all (\<lambda>x. length x \<le> 4) [[1, 2, 3, 4], [5, 6, 7, 8], [0, 0, 0, 1 :: real]] \<and>
   (0::nat) < 2 \<and>
   [[1, 2, 3, 4], [5, 6, 7, 8], [0, 0, 0, 1 :: real]] \<noteq> [] \<and>
   length (mini_batches [[1, 2, 3, 4], [5, 6, 7, 8], [0, 0, 0, 1 :: real]] 2) = (3 + 2 - 1) div 2 \<and>
   mini_batches [[1, 2, 3, 4], [5, 6, 7, 8], [0, 0, 0, 1 :: real]] 2 ! 1 = [[0, 0, 0, 1]]"
proof -
  let ?X = "[[1, 2, 3, 4], [5, 6, 7, 8], [0, 0, 0, 1 :: real]]"
  have g: "(2::nat) \<le> 4" "(0::nat) < 2" "?X \<noteq> []" by simp_all
  have h: "\<forall>x\<in>set ?X. length x \<le> 4" by simp
  note t = mini_batches_are_clipped_contiguous_slices [OF g(1) h g(2) g(3),
      where update = "\<lambda>b s. s" and L = 4 and epochs = 50 and st = "((), \<lambda>l w a. 0)"]
  from t have len: "length (mini_batches ?X 2) = (3 + 2 - 1) div 2" by simp
  then have "1 < length (mini_batches ?X 2)" by simp
  with t have "mini_batches ?X 2 ! 1 = take 2 (drop (1 * 2) ?X)" by blast
  then show ?thesis using g len by simp
qed

text \<open>
  C6, as stated, asks for fixed-size batches with indices \<open>[j * batch_size,
  (j + 1) * batch_size)\<close> for every \<open>j\<close>.  With three samples and batch size 2 the
  second batch, at index 2, holds the single sample with index 2.
\<close>

theorem fixed_size_batches_counterexample:
  "batch_iter (length [[1, 2, 3, 4], [5, 6, 7, 8], [0, 0, 0, 1 :: real]]) 2 = Inr [0, 2] \<and>
   X_batch_of [[1, 2, 3, 4], [5, 6, 7, 8], [0, 0, 0, 1 :: real]] 2 2 = [[0, 0, 0, 1]] \<and>
   length (X_batch_of [[1, 2, 3, 4], [5, 6, 7, 8], [0, 0, 0, 1 :: real]] 2 2) \<noteq> 2"
  by (simp add: batch_iter_def py_range.simps X_batch_of_def)

text \<open>
  C10: the mini-batches of an epoch partition the training set.  The batches are
  non-empty, none is longer than \<open>batch_size\<close>, their concatenation is the training
  set, every sample index lies in exactly one batch (sample \<open>i\<close> is entry
  \<open>i mod batch_size\<close> of batch \<open>i div batch_size\<close>), and when \<open>batch_size\<close> does not
  divide the number of samples the final batch holds the remaining
  \<open>N mod batch_size\<close> samples, fewer than \<open>batch_size\<close>; it is not dropped.
\<close>

theorem mini_batches_partition_training_set:
  assumes "2 \<le> n" and "\<forall>x\<in>set X. length x \<le> n" and "0 < bs" and "X \<noteq> []"
  shows "train update n L X bs epochs st
           = Inr (foldl (\<lambda>s b. update b s) st (concat (replicate epochs (mini_batches X bs)))) \<and>
         concat (mini_batches X bs) = X \<and>
         (\<forall>b\<in>set (mini_batches X bs). b \<noteq> [] \<and> length b \<le> bs) \<and>
         (\<forall>i<length X. \<exists>!j. j < length (mini_batches X bs) \<and> j * bs \<le> i \<and>
              i < j * bs + length (mini_batches X bs ! j)) \<and>
         (\<forall>i<length X. mini_batches X bs ! (i div bs) ! (i mod bs) = X ! i) \<and>
         (\<not> bs dvd length X \<longrightarrow>
            length (last (mini_batches X bs)) = length X mod bs \<and> length X mod bs < bs)"
proof -
  let ?nb = "(length X + bs - 1) div bs"
  have uniq: "\<exists>!j. j < length (mini_batches X bs) \<and> j * bs \<le> i \<and>
                i < j * bs + length (mini_batches X bs ! j)" if "i < length X" for i
  proof -
    have len: "length (mini_batches X bs) = ?nb"
      using assms(3) by (simp add: mini_batches_closed)
    have iff: "(j < ?nb) = (j * bs < length X)" for j
      by (rule batch_index_iff [OF assms(3)])
    have nth: "length (mini_batches X bs ! j) = min bs (length X - j * bs)" if "j < ?nb" for j
      using assms(3) that by (simp only: mini_batches_closed) simp
    have "(j < length (mini_batches X bs) \<and> j * bs \<le> i \<and> i < j * bs + length (mini_batches X bs ! j))
        = (j * bs < length X \<and> j * bs \<le> i \<and> i < j * bs + min bs (length X - j * bs))" for j
      unfolding len using nth [of j] iff [of j] by auto
    then show ?thesis using unique_batch [OF assms(3) that] by simp
  qed
  have elem: "mini_batches X bs ! (i div bs) ! (i mod bs) = X ! i" if "i < length X" for i
  proof -
    have "i div bs * bs \<le> i" by simp
    from this that have "i div bs * bs < length X" by (rule le_less_trans)
    then have "i div bs < ?nb" by (simp only: batch_index_iff [OF assms(3)])
    then have "mini_batches X bs ! (i div bs) = take bs (drop (i div bs * bs) X)"
      using assms(3) by (simp only: mini_batches_closed) simp
    moreover have "i mod bs < length X - i div bs * bs"
      using that by (metis add.commute div_mult_mod_eq less_diff_conv)
    moreover have "i mod bs < bs" using assms(3) by simp
    ultimately show ?thesis by simp
  qed
  show ?thesis
    using assms(3) uniq elem
    by (simp add: train_eq [OF assms] concat_mini_batches mini_batches_nonempty last_batch_length)
qed

theorem mini_batches_partition_training_set_witness:
  "(2::nat) \<le> 4 \<and> list_all (\<lambda>x. length x \<le> 4) [[1, 2, 3, 4], [5, 6, 7, 8], [0, 0, 0, 1 :: real]] \<and>
   (0::nat) < 2 \<and>
   [[1, 2, 3, 4], [5, 6, 7, 8], [0, 0, 0, 1 :: real]] \<noteq> [] \<and>
   concat (mini_batches [[1, 2, 3, 4], [5, 6, 7, 8], [0, 0, 0, 1 :: real]] 2)
     = [[1, 2, 3, 4], [5, 6, 7, 8], [0, 0, 0, 1]] \<and>
   length (last (mini_batches [[1, 2, 3, 4], [5, 6, 7, 8], [0, 0, 0, 1 :: real]] 2)) = 1"
proof -
  let ?X = "[[1, 2, 3, 4], [5, 6, 7, 8], [0, 0, 0, 1 :: real]]"
  have g: "(2::nat) \<le> 4" "(0::nat) < 2" "?X \<noteq> []" by simp_all
  have h: "\<forall>x\<in>set ?X. length x \<le> 4" by simp
  note t = mini_batches_partition_training_set [OF g(1) h g(2) g(3),
      where update = "\<lambda>b s. s" and L = 4 and epochs = 50 and st = "((), \<lambda>l w a. 0)"]
  from t have c: "concat (mini_batches ?X 2) = ?X" by blast
  have nd: "\<not> (2::nat) dvd length ?X" by simp
  from t nd have "length (last (mini_batches ?X 2)) = length ?X mod 2" by blast
  then show ?thesis using g c by simp
qed

subsection \<open>Metrics\<close>










subsection \<open>The expectation as a function of one parameter\<close>

lemma ApplySingleQubitGate_linear:
  "ApplySingleQubitGate U p (\<lambda>i. c * A i + s * B i)
     = (\<lambda>i. c * ApplySingleQubitGate U p A i + s * ApplySingleQubitGate U p B i)"
  by (cases U) (auto simp add: ApplySingleQubitGate_def fun_eq_iff algebra_simps)

lemma ApplyControlledFlip_linear:
  "ApplyControlledFlip c' t' (\<lambda>i. c * A i + s * B i)
     = (\<lambda>i. c * ApplyControlledFlip c' t' A i + s * ApplyControlledFlip c' t' B i)"
  by (simp add: ApplyControlledFlip_def)

lemma apply_gate_linear:
  "apply_gate n (\<lambda>i. c * A i + s * B i) g
     = (\<lambda>i. c * apply_gate n A g i + s * apply_gate n B g i)"
  by (cases g) (simp_all add: ApplySingleQubitGate_linear ApplyControlledFlip_linear)

lemma run_tape_linear:
  "run_tape n tape (\<lambda>i. c * A i + s * B i)
     = (\<lambda>i. c * run_tape n tape A i + s * run_tape n tape B i)"
  unfolding run_tape_def
  by (induction tape arbitrary: A B) (simp_all add: apply_gate_linear)

lemma run_tape_append: "run_tape n (xs @ ys) \<psi> = run_tape n ys (run_tape n xs \<psi>)"
  by (simp add: run_tape_def)

lemma rot_decompose:
  "apply_gate n \<phi> (rot_gate ax t q)
     = (\<lambda>i. complex_of_real (cos (t / 2)) * \<phi> i
            + complex_of_real (sin (t / 2)) * ApplySingleQubitGate (rot_generator ax) (wire_bit n q) \<phi> i)"
  by (auto simp add: fun_eq_iff ApplySingleQubitGate_def rot_gate_def rot_generator_def RX_matrix_def
      RY_matrix_def RZ_matrix_def algebra_simps unset_bit_clear set_bit_set)

lemma cmod_sq_combo:
  "(cmod (complex_of_real c * a + complex_of_real s * b))\<^sup>2
     = c\<^sup>2 * (cmod a)\<^sup>2 + s\<^sup>2 * (cmod b)\<^sup>2 + 2 * c * s * Re (a * cnj b)"
  unfolding cmod_power2 by (simp add: power2_eq_square algebra_simps)

lemma Expectation_combo:
  "Expectation n p (\<lambda>i. complex_of_real c * A i + complex_of_real s * B i)
     = c\<^sup>2 * Expectation n p A + s\<^sup>2 * Expectation n p B
       + 2 * c * s * (\<Sum>i<2 ^ n. Re (A i * cnj (B i)) * (if bit i p then - 1 else 1))"
  unfolding Expectation_def cmod_sq_combo
  by (simp add: sum_distrib_left sum.distrib [symmetric] algebra_simps)

lemma half_angle_form:
  "(cos (t / 2))\<^sup>2 * \<alpha> + (sin (t / 2))\<^sup>2 * \<beta> + 2 * cos (t / 2) * sin (t / 2) * \<gamma>
     = (\<alpha> + \<beta>) / 2 + (\<alpha> - \<beta>) / 2 * cos t + \<gamma> * sin (t::real)"
proof -
  have c: "cos t = (cos (t / 2))\<^sup>2 - (sin (t / 2))\<^sup>2"
    using cos_double [of "t / 2"] by simp
  have s: "sin t = 2 * sin (t / 2) * cos (t / 2)"
    using sin_double [of "t / 2"] by simp
  have one: "(cos (t / 2))\<^sup>2 = 1 - (sin (t / 2))\<^sup>2"
    by (rule cos_squared_eq)
  show ?thesis
    unfolding c s one by (simp add: field_simps)
qed

lemma trig_form_deriv:
  fixes a0 a1 a2 :: real
  assumes "\<And>t. f t = a0 + a1 * cos t + a2 * sin t"
  shows "(f has_real_derivative (f (t + pi / 2) - f (t - pi / 2)) / 2) (at t)"
proof -
  have feq: "f = (\<lambda>t. a0 + a1 * cos t + a2 * sin t)"
    using assms by auto
  have d: "(f has_real_derivative (- a1 * sin t + a2 * cos t)) (at t)"
    unfolding feq by (auto intro!: derivative_eq_intros)
  have e: "(f (t + pi / 2) - f (t - pi / 2)) / 2 = - a1 * sin t + a2 * cos t"
    by (simp add: assms cos_add sin_add cos_diff sin_diff)
  show ?thesis
    unfolding e by (rule d)
qed

lemma shift_form_const: "shift_form (\<lambda>t. c)"
  unfolding shift_form_def by (rule disjI1) simp

lemma shift_form_rot: "(\<And>t. g t = pre @ [rot_gate ax t q] @ post) \<Longrightarrow> shift_form g"
  unfolding shift_form_def by (rule disjI2) blast

lemma shift_form_cases:
  assumes "shift_form g"
  obtains (const) c where "\<And>t. g t = c"
    | (rot) pre post ax q where "\<And>t. g t = pre @ [rot_gate ax t q] @ post"
  using assms unfolding shift_form_def by blast

lemma shift_form_wrap:
  assumes "shift_form g"
  shows "shift_form (\<lambda>t. pre @ g t @ post)"
  using assms
proof (cases rule: shift_form_cases)
  case (const c)
  then show ?thesis by (simp add: shift_form_const)
next
  case (rot pre' post' ax q)
  show ?thesis
    by (rule shift_form_rot [of _ "pre @ pre'" ax q "post' @ post"]) (simp add: rot)
qed

lemma shift_form_triple:
  "shift_form (\<lambda>t. [RX (((th::nat \<Rightarrow> real)(a := t)) 0) q, RY ((th(a := t)) 1) q, RZ ((th(a := t)) 2) q])"
proof -
  consider "a = 0" | "a = 1" | "a = 2" | "a \<noteq> 0 \<and> a \<noteq> 1 \<and> a \<noteq> 2" by blast
  then show ?thesis
  proof cases
    case 1
    show ?thesis
      by (rule shift_form_rot [of _ "[]" 0 q "[RY (th 1) q, RZ (th 2) q]"])
        (simp add: 1 rot_gate_def)
  next
    case 2
    show ?thesis
      by (rule shift_form_rot [of _ "[RX (th 0) q]" 1 q "[RZ (th 2) q]"])
        (simp add: 2 rot_gate_def)
  next
    case 3
    show ?thesis
      by (rule shift_form_rot [of _ "[RX (th 0) q, RY (th 1) q]" 2 q "[]"])
        (simp add: 3 rot_gate_def)
  next
    case 4
    then have "(\<lambda>t. [RX ((th(a := t)) 0) q, RY ((th(a := t)) 1) q, RZ ((th(a := t)) 2) q])
        = (\<lambda>t. [RX (th 0) q, RY (th 1) q, RZ (th 2) q])"
      by simp
    then show ?thesis by (simp only: shift_form_const)
  qed
qed

lemma split_upt: "k < m \<Longrightarrow> [0..<m] = [0..<k] @ k # [Suc k..<m]"
proof -
  assume km: "k < m"
  have "[0..<k + (m - k)] = [0..<k] @ [k..<k + (m - k)]"
    by (rule upt_add_eq_append) simp
  moreover have "k + (m - k) = m" using km by simp
  ultimately have "[0..<m] = [0..<k] @ [k..<m]" by (simp only:)
  moreover have "[k..<m] = k # [Suc k..<m]" using km by (rule upt_conv_Cons)
  ultimately show ?thesis by (simp only:)
qed

lemma shift_form_concat_map:
  assumes other: "\<And>i t. i \<noteq> k \<Longrightarrow> F t i = F 0 i"
    and at_k: "shift_form (\<lambda>t. F t k)"
  shows "shift_form (\<lambda>t. concat (map (F t) [0..<m]))"
proof (cases "k < m")
  case True
  then have split: "[0..<m] = [0..<k] @ k # [Suc k..<m]"
    by (rule split_upt)
  have "concat (map (F t) [0..<m])
      = concat (map (F 0) [0..<k]) @ F t k @ concat (map (F 0) [Suc k..<m])" for t
  proof -
    have e1: "map (F t) [0..<k] = map (F 0) [0..<k]"
      by (rule map_cong [OF refl], rule other) simp
    have e2: "map (F t) [Suc k..<m] = map (F 0) [Suc k..<m]"
      by (rule map_cong [OF refl], rule other) simp
    have "concat (map (F t) [0..<m])
        = concat (map (F t) ([0..<k] @ k # [Suc k..<m]))"
      by (simp only: split [symmetric])
    also have "\<dots> = concat (map (F t) [0..<k]) @ F t k @ concat (map (F t) [Suc k..<m])"
      by (simp only: map_append list.map concat_append concat.simps)
    also have "\<dots> = concat (map (F 0) [0..<k]) @ F t k @ concat (map (F 0) [Suc k..<m])"
      unfolding e1 e2 ..
    finally show ?thesis .
  qed
  then have eq: "(\<lambda>t. concat (map (F t) [0..<m]))
      = (\<lambda>t. concat (map (F 0) [0..<k]) @ F t k @ concat (map (F 0) [Suc k..<m]))"
    by (rule ext)
  show ?thesis
    unfolding eq by (rule shift_form_wrap [OF at_k])
next
  case False
  have "concat (map (F t) [0..<m]) = concat (map (F 0) [0..<m])" for t
  proof -
    have "map (F t) [0..<m] = map (F 0) [0..<m]"
      by (rule map_cong [OF refl], rule other) (use False in simp)
    then show ?thesis by (rule arg_cong)
  qed
  then have "(\<lambda>t. concat (map (F t) [0..<m])) = (\<lambda>t. concat (map (F 0) [0..<m]))"
    by (rule ext)
  then show ?thesis by (simp only: shift_form_const)
qed

lemma shift_form_layer:
  "shift_form (\<lambda>t. variational_layer n (theta(q := (theta q)(a := t))))"
proof -
  define F where "F = (\<lambda>t i. [RX ((theta(q := (theta q)(a := t))) i 0) i,
                   RY ((theta(q := (theta q)(a := t))) i 1) i,
                   RZ ((theta(q := (theta q)(a := t))) i 2) i])"
  have other: "F t i = F 0 i" if "i \<noteq> q" for i t
    using that by (simp add: F_def)
  have "(\<lambda>t. F t q)
      = (\<lambda>t. [RX (((theta q)(a := t)) 0) q, RY (((theta q)(a := t)) 1) q, RZ (((theta q)(a := t)) 2) q])"
    by (simp add: F_def)
  then have at_q: "shift_form (\<lambda>t. F t q)"
    by (simp only: shift_form_triple)
  have "shift_form (\<lambda>t. concat (map (F t) [0..<n]))"
    using other at_q by (rule shift_form_concat_map)
  then have "shift_form (\<lambda>t. [] @ concat (map (F t) [0..<n]) @ map (\<lambda>i. CNOT i ((i + 1) mod n)) [0..<n])"
    by (rule shift_form_wrap)
  moreover have "(\<lambda>t. variational_layer n (theta(q := (theta q)(a := t))))
      = (\<lambda>t. [] @ concat (map (F t) [0..<n]) @ map (\<lambda>i. CNOT i ((i + 1) mod n)) [0..<n])"
    by (simp add: variational_layer_def F_def)
  ultimately show ?thesis by (simp only:)
qed

lemma shift_form_Forward_gates:
  "shift_form (\<lambda>t. Forward_gates n L x (set_param weights l q a t))"
proof -
  define F where "F = (\<lambda>t l'. variational_layer n (set_param weights l q a t l'))"
  have other: "F t l' = F 0 l'" if "l' \<noteq> l" for l' t
    using that by (simp add: F_def set_param_def)
  have "(\<lambda>t. F t l) = (\<lambda>t. variational_layer n ((weights l)(q := (weights l q)(a := t))))"
    by (simp add: F_def set_param_def)
  then have at_l: "shift_form (\<lambda>t. F t l)"
    by (simp only: shift_form_layer)
  have "shift_form (\<lambda>t. concat (map (F t) [0..<L]))"
    using other at_l by (rule shift_form_concat_map)
  then have "shift_form (\<lambda>t. encoding_gates x @ concat (map (F t) [0..<L]) @ [])"
    by (rule shift_form_wrap)
  moreover have "(\<lambda>t. Forward_gates n L x (set_param weights l q a t))
      = (\<lambda>t. encoding_gates x @ concat (map (F t) [0..<L]) @ [])"
    by (simp add: Forward_gates_def F_def)
  ultimately show ?thesis by (simp only:)
qed

lemma shift_form_expectation:
  assumes "shift_form g"
  shows "\<exists>a0 a1 a2. \<forall>t. Expectation n p (run_tape n (g t) \<psi>) = a0 + a1 * cos t + a2 * sin t"
  using assms
proof (cases rule: shift_form_cases)
  case (const c)
  have "\<forall>t. Expectation n p (run_tape n (g t) \<psi>)
      = Expectation n p (run_tape n c \<psi>) + 0 * cos t + 0 * sin t"
    by (simp add: const)
  then show ?thesis by (intro exI)
next
  case (rot pre post ax q)
  define \<phi> where "\<phi> = run_tape n pre \<psi>"
  define A where "A = run_tape n post \<phi>"
  define B where "B = run_tape n post (ApplySingleQubitGate (rot_generator ax) (wire_bit n q) \<phi>)"
  define \<gamma> where "\<gamma> = (\<Sum>i<2 ^ n. Re (A i * cnj (B i)) * (if bit i p then - 1 else 1))"
  have st: "run_tape n (g t) \<psi>
      = (\<lambda>i. complex_of_real (cos (t / 2)) * A i + complex_of_real (sin (t / 2)) * B i)" for t
  proof -
    have "run_tape n (g t) \<psi> = run_tape n post (apply_gate n \<phi> (rot_gate ax t q))"
      by (simp add: rot run_tape_def \<phi>_def)
    also have "\<dots> = (\<lambda>i. complex_of_real (cos (t / 2)) * A i + complex_of_real (sin (t / 2)) * B i)"
      by (simp only: rot_decompose run_tape_linear A_def B_def)
    finally show ?thesis .
  qed
  have "Expectation n p (run_tape n (g t) \<psi>)
      = (Expectation n p A + Expectation n p B) / 2
        + (Expectation n p A - Expectation n p B) / 2 * cos t + \<gamma> * sin t" for t
  proof -
    have "Expectation n p (run_tape n (g t) \<psi>)
        = (cos (t / 2))\<^sup>2 * Expectation n p A + (sin (t / 2))\<^sup>2 * Expectation n p B
          + 2 * cos (t / 2) * sin (t / 2) * \<gamma>"
      by (simp only: st Expectation_combo \<gamma>_def)
    also have "\<dots> = (Expectation n p A + Expectation n p B) / 2
        + (Expectation n p A - Expectation n p B) / 2 * cos t + \<gamma> * sin t"
      by (rule half_angle_form)
    finally show ?thesis .
  qed
  then have "\<forall>t. Expectation n p (run_tape n (g t) \<psi>)
      = (Expectation n p A + Expectation n p B) / 2
        + (Expectation n p A - Expectation n p B) / 2 * cos t + \<gamma> * sin t"
    by (rule allI)
  then show ?thesis by (intro exI)
qed

text \<open>
  C1: the parameter-shift rule.  For every index \<open>(l, q, a)\<close> of the parameter tensor,
  with all other parameters held fixed, let \<open>E t\<close> be the forward evaluation of the
  circuit with that parameter set to \<open>t\<close>.  Then \<open>E\<close> is differentiable and its
  derivative at every \<open>t\<close>, in particular at the current parameter value, is
  \<open>(E (t + \<pi>/2) - E (t - \<pi>/2)) / 2\<close>.
\<close>

theorem parameter_shift_rule:
  assumes "2 \<le> n" and "length x \<le> n"
  shows "\<exists>E. (\<forall>t. qae_circuit n L x (set_param weights l q a t) = Inr (E t)) \<and>
             qae_circuit n L x weights = Inr (E (weights l q a)) \<and>
             (\<forall>t. (E has_real_derivative (E (t + pi / 2) - E (t - pi / 2)) / 2) (at t))"
proof -
  define E where "E = (\<lambda>t. Forward n L x (set_param weights l q a t))"
  have "\<exists>a0 a1 a2. \<forall>t. E t = a0 + a1 * cos t + a2 * sin t"
    using shift_form_expectation [OF shift_form_Forward_gates,
        of n "wire_bit n (n - 1)" n L x weights l q a Initialize]
    by (simp only: E_def Forward_def run_tape_def)
  then obtain a0 a1 a2 where form: "\<And>t. E t = a0 + a1 * cos t + a2 * sin t"
    by (elim exE) simp
  have id: "set_param weights l q a (weights l q a) = weights"
    by (simp add: set_param_def)
  have 1: "\<forall>t. qae_circuit n L x (set_param weights l q a t) = Inr (E t)"
    by (simp add: qae_circuit_eq [OF assms] E_def)
  have 2: "qae_circuit n L x weights = Inr (E (weights l q a))"
    by (simp add: qae_circuit_eq [OF assms] E_def id)
  have 3: "\<forall>t. (E has_real_derivative (E (t + pi / 2) - E (t - pi / 2)) / 2) (at t)"
    by (rule allI) (rule trig_form_deriv [of E a0 a1 a2, OF form])
  from 1 2 3 show ?thesis by (intro exI [of _ E] conjI)
qed

theorem parameter_shift_rule_witness:
  "(2::nat) \<le> 4 \<and> length [1, 2, 3, 4 :: real] \<le> 4 \<and>
   (\<exists>E. (\<forall>t. qae_circuit 4 4 [1, 2, 3, 4] (set_param (\<lambda>l w a. 0) 3 2 1 t) = Inr (E t)) \<and>
        qae_circuit 4 4 [1, 2, 3, 4] (\<lambda>l w a. 0) = Inr (E 0) \<and>
        (\<forall>t. (E has_real_derivative (E (t + pi / 2) - E (t - pi / 2)) / 2) (at t)))"
proof -
  have g: "(2::nat) \<le> 4" and h: "length [1, 2, 3, 4 :: real] \<le> 4" by simp_all
  show ?thesis
    using parameter_shift_rule [OF g h, of 4 "\<lambda>l w a. 0" 3 2 1]
    by (intro conjI g h)
qed

end
